theory Spec2Isabelle
  imports Complex_Main
begin

section \<open>Python strings\<close>

text \<open>
  A Python \<^verbatim>\<open>str\<close> is modelled as a \<^typ>\<open>string\<close>, one \<^typ>\<open>char\<close> for each
  character of the text, so that \<^verbatim>\<open>len\<close> is \<^const>\<open>length\<close>. The operations
  below are the ones the Livia sources call on strings. They are written for ASCII text:
  \<^verbatim>\<open>str.lower\<close> maps \<^verbatim>\<open>A\<close>..\<^verbatim>\<open>Z\<close> to \<^verbatim>\<open>a\<close>..\<^verbatim>\<open>z\<close>
  and leaves every other character alone, and the white space of \<^verbatim>\<open>str.strip\<close>
  is Python's ASCII white space (codes 9 to 13 and 28 to 32). The fixed Portuguese
  messages of the sources are written without their accents and without the warning sign
  that opens some of them, neither of which an ASCII theory can hold.
\<close>

definition lower_char :: "char \<Rightarrow> char" where
  "lower_char c =
     (if (65::nat) \<le> of_char c \<and> (of_char c :: nat) \<le> 90
      then char_of ((of_char c :: nat) + 32) else c)"

definition lower :: "string \<Rightarrow> string" where
  "lower s = map lower_char s"

fun startswith :: "string \<Rightarrow> string \<Rightarrow> bool" where
  "startswith s [] = True"
| "startswith [] (k # ks) = False"
| "startswith (c # cs) (k # ks) = (c = k \<and> startswith cs ks)"

text \<open>\<^verbatim>\<open>k in s\<close> for two strings: \<open>k\<close> occurs in \<open>s\<close> as a contiguous piece.\<close>

fun str_in :: "string \<Rightarrow> string \<Rightarrow> bool" where
  "str_in k [] = (k = [])"
| "str_in k (c # cs) = (startswith (c # cs) k \<or> str_in k cs)"

definition isspace :: "char \<Rightarrow> bool" where
  "isspace c =
     ((9::nat) \<le> of_char c \<and> (of_char c :: nat) \<le> 13 \<or>
      (28::nat) \<le> of_char c \<and> (of_char c :: nat) \<le> 32)"

definition strip :: "string \<Rightarrow> string" where
  "strip s = rev (dropWhile isspace (rev (dropWhile isspace s)))"

text \<open>
  \<^verbatim>\<open>s.split(sep)\<close> for a separator of at least one character: the text is read
  from the left, every occurrence of \<open>sep\<close> found ends a piece and is skipped, and the
  last piece is what is left (so the result is never empty). \<open>piece\<close> is the piece
  being read; where the separator starts at \<open>c\<close>, its other \<open>length sep - 1\<close>
  characters are dropped from \<open>cs\<close>. Python raises \<^verbatim>\<open>ValueError\<close> for an empty
  separator; the sources only split on separators that are not empty.
\<close>

fun split_from :: "string \<Rightarrow> string \<Rightarrow> string \<Rightarrow> string list" where
  "split_from sep piece [] = [piece]"
| "split_from sep piece (c # cs) =
     (if startswith (c # cs) sep
      then piece # split_from sep [] (drop (length sep - 1) cs)
      else split_from sep (piece @ [c]) cs)"

definition split :: "string \<Rightarrow> string \<Rightarrow> string list" where
  "split s sep = split_from sep [] s"

definition PARAGRAPH_SEP :: string where
  "PARAGRAPH_SEP = [CHR 0x0A, CHR 0x0A]"

definition SENTENCE_SEP :: string where
  "SENTENCE_SEP = ''. ''"

section \<open>The integration table (tools/mcp/zapier\_mcps.py)\<close>

text \<open>
  One entry of \<^verbatim>\<open>ZAPIER_MCPS\<close>. The fields \<^verbatim>\<open>url\<close>, \<^verbatim>\<open>api_key\<close> and
  \<^verbatim>\<open>description\<close> of the source's dictionaries are connection data that keyword
  routing never reads; the record keeps the other four
  (\<^verbatim>\<open>name\<close> as \<open>display_name\<close>, \<^verbatim>\<open>keywords\<close> as \<open>keyword_list\<close>).
\<close>

record mcp_config =
  display_name :: string
  server_label :: string
  keyword_list :: "string list"
  priority :: nat

definition ZAPIER_MCPS :: "(string \<times> mcp_config) list" where
  "ZAPIER_MCPS =
    [(''google_drive'',
        \<lparr>display_name = ''Zapier Google Drive MCP'', server_label = ''zapier-gdrive'',
         keyword_list = [''google drive'', ''drive'', ''gdrive''], priority = 1\<rparr>),
     (''mcpEverhour'',
        \<lparr>display_name = ''Zapier mcpEverhour'', server_label = ''zapier-mcpeverhour'',
         keyword_list = [''everhour''], priority = 2\<rparr>),
     (''mcpGmail'',
        \<lparr>display_name = ''Zapier mcpGmail'', server_label = ''zapier-mcpgmail'',
         keyword_list = [''gmail''], priority = 3\<rparr>),
     (''mcpAsana'',
        \<lparr>display_name = ''Zapier mcpAsana'', server_label = ''zapier-mcpasana'',
         keyword_list = [''asana''], priority = 4\<rparr>),
     (''mcpGoogleCalendar'',
        \<lparr>display_name = ''Zapier mcpGoogleCalendar'', server_label = ''zapier-mcpgooglecalendar'',
         keyword_list = [''calendar''], priority = 5\<rparr>),
     (''mcpGoogleDocs'',
        \<lparr>display_name = ''Zapier mcpGoogleDocs'', server_label = ''zapier-mcpgoogledocs'',
         keyword_list = [''docs''], priority = 6\<rparr>),
     (''mcpGoogleSheets'',
        \<lparr>display_name = ''Zapier mcpGoogleSheets'', server_label = ''zapier-mcpgooglesheets'',
         keyword_list = [''sheets''], priority = 7\<rparr>),
     (''mcpSlack'',
        \<lparr>display_name = ''Zapier mcpSlack'', server_label = ''zapier-mcpslack'',
         keyword_list = [''slack''], priority = 8\<rparr>)]"

definition PRIORITY_ORDER :: "string list" where
  "PRIORITY_ORDER =
    [''google_drive'', ''mcpEverhour'', ''mcpGmail'', ''mcpAsana'',
     ''mcpGoogleCalendar'', ''mcpGoogleDocs'', ''mcpGoogleSheets'', ''mcpSlack'']"

datatype lookup_error = KeyError string

text \<open>
  The inner loop of \<^verbatim>\<open>get_mcp_by_keywords\<close>: the first keyword that occurs in the
  lowered message ends the search.
\<close>

fun any_keyword_in :: "string list \<Rightarrow> string \<Rightarrow> bool" where
  "any_keyword_in [] message_lower = False"
| "any_keyword_in (keyword # rest) message_lower =
     (if str_in keyword message_lower then True else any_keyword_in rest message_lower)"

text \<open>
  The outer loop, over the names still to try. \<^verbatim>\<open>ZAPIER_MCPS[mcp_name]\<close> raises
  \<^verbatim>\<open>KeyError\<close> for a name the table lacks.
\<close>

fun scan_mcps ::
  "(string \<times> mcp_config) list \<Rightarrow> string list \<Rightarrow> string \<Rightarrow>
   lookup_error + (string \<times> mcp_config) option" where
  "scan_mcps table [] message_lower = Inr None"
| "scan_mcps table (mcp_name # rest) message_lower =
     (case map_of table mcp_name of
        None \<Rightarrow> Inl (KeyError mcp_name)
      | Some mcp_config \<Rightarrow>
          if any_keyword_in (keyword_list mcp_config) message_lower
          then Inr (Some (mcp_name, mcp_config))
          else scan_mcps table rest message_lower)"

definition get_mcp_by_keywords ::
  "string \<Rightarrow> lookup_error + (string \<times> mcp_config) option" where
  "get_mcp_by_keywords message = scan_mcps ZAPIER_MCPS PRIORITY_ORDER (lower message)"

text \<open>
  The routing rule in words: an integration matches a lowered message when one of its
  keywords occurs in it. The rule is a reading of the table, not of the loops above.
\<close>

definition mcp_matches :: "string \<Rightarrow> string \<Rightarrow> bool" where
  "mcp_matches message_lower mcp_name =
     (case map_of ZAPIER_MCPS mcp_name of
        None \<Rightarrow> False
      | Some mcp_config \<Rightarrow> \<exists>keyword \<in> set (keyword_list mcp_config). str_in keyword message_lower)"

text \<open>The integration key of a routing result, when there is one.\<close>

definition mcp_key_of :: "lookup_error + (string \<times> mcp_config) option \<Rightarrow> string option" where
  "mcp_key_of r = (case r of Inl e \<Rightarrow> None | Inr None \<Rightarrow> None | Inr (Some (k, c)) \<Rightarrow> Some k)"

section \<open>Splitting a long reply (server/message\_processor.py)\<close>

text \<open>
  The innermost loop of \<^verbatim>\<open>_split_long_message\<close>:
  \<^verbatim>\<open>while len(sentence) > max_length: parts.append(sentence[:max_length]);
  sentence = sentence[max_length:]\<close>. With \<open>max_length = 0\<close> the loop never ends on
  a sentence that is not empty, so the loop is a partial function and not returning is
  \<open>None\<close>. \<open>max_length\<close> is a natural number: the one caller passes 3000.
\<close>

partial_function (option) hard_split ::
  "nat \<Rightarrow> string list \<Rightarrow> string \<Rightarrow> (string list \<times> string) option" where
  "hard_split max_length parts sentence =
     (if length sentence > max_length
      then hard_split max_length (parts @ [take max_length sentence]) (drop max_length sentence)
      else Some (parts, sentence))"

declare hard_split.simps [code]

text \<open>
  The loop over the sentences of one paragraph. The state is the pair of \<open>parts\<close> and
  \<open>current_part\<close>.
\<close>

fun split_sentences ::
  "nat \<Rightarrow> string list \<Rightarrow> string list \<times> string \<Rightarrow> (string list \<times> string) option" where
  "split_sentences max_length [] (parts, current_part) = Some (parts, current_part)"
| "split_sentences max_length (sentence # rest) (parts, current_part) =
     (if length current_part + length sentence + 2 > max_length
      then
        if current_part \<noteq> []
        then split_sentences max_length rest (parts @ [strip current_part], sentence)
        else
          (case hard_split max_length parts sentence of
             None \<Rightarrow> None
           | Some (parts', sentence') \<Rightarrow> split_sentences max_length rest (parts', sentence'))
      else split_sentences max_length rest (parts, current_part @ sentence @ SENTENCE_SEP))"

text \<open>The loop over the paragraphs.\<close>

fun split_paragraphs ::
  "nat \<Rightarrow> string list \<Rightarrow> string list \<times> string \<Rightarrow> (string list \<times> string) option" where
  "split_paragraphs max_length [] (parts, current_part) = Some (parts, current_part)"
| "split_paragraphs max_length (paragraph # rest) (parts, current_part) =
     (if length current_part + length paragraph + 2 > max_length
      then
        if current_part \<noteq> []
        then split_paragraphs max_length rest (parts @ [strip current_part], paragraph)
        else
          (case split_sentences max_length (split paragraph SENTENCE_SEP) (parts, current_part) of
             None \<Rightarrow> None
           | Some state \<Rightarrow> split_paragraphs max_length rest state)
      else split_paragraphs max_length rest (parts, current_part @ paragraph @ PARAGRAPH_SEP))"

definition split_long_message :: "string \<Rightarrow> nat \<Rightarrow> string list option" where
  "split_long_message message max_length =
     (if length message \<le> max_length then Some [message]
      else
        (case split_paragraphs max_length (split message PARAGRAPH_SEP) ([], []) of
           None \<Rightarrow> None
         | Some (parts, current_part) \<Rightarrow>
             Some (if strip current_part \<noteq> [] then parts @ [strip current_part] else parts)))"

section \<open>The content guardrail (agent/guardrails.py)\<close>

text \<open>
  A Python \<^verbatim>\<open>float\<close>: a finite value, an infinity or not-a-number. A finite double
  is modelled by the real number it denotes. The literal \<^verbatim>\<open>0.7\<close> of the source is the
  double nearest to 7/10; it lies just below 7/10 and the next double lies above, so a
  double exceeds the literal exactly when its value exceeds 7/10. Every comparison with
  not-a-number is false.
\<close>

datatype pyfloat = Finite real | PosInf | NegInf | NaN

fun float_gt :: "pyfloat \<Rightarrow> pyfloat \<Rightarrow> bool" where
  "float_gt (Finite a) (Finite b) = (a > b)"
| "float_gt PosInf (Finite b) = True"
| "float_gt PosInf NegInf = True"
| "float_gt (Finite a) NegInf = True"
| "float_gt a b = False"

fun float_le :: "pyfloat \<Rightarrow> pyfloat \<Rightarrow> bool" where
  "float_le (Finite a) (Finite b) = (a \<le> b)"
| "float_le NaN b = False"
| "float_le a NaN = False"
| "float_le NegInf b = True"
| "float_le a PosInf = True"
| "float_le a b = False"

record ProfessionalContentOutput =
  is_inappropriate :: bool
  category :: string
  reasoning :: string
  confidence_score :: pyfloat

record GuardrailFunctionOutput =
  output_info :: ProfessionalContentOutput
  tripwire_triggered :: bool

text \<open>
  Exceptions, each with the text \<^verbatim>\<open>str(e)\<close> gives. \<^verbatim>\<open>InputGuardrailTripwireTriggered\<close>
  is the Agents SDK's; it is a subclass of \<^verbatim>\<open>Exception\<close>, so a handler for
  \<^verbatim>\<open>Exception\<close> catches it too.
\<close>

datatype exn = InputGuardrailTripwireTriggered string | Exception string

fun str_of_exn :: "exn \<Rightarrow> string" where
  "str_of_exn (InputGuardrailTripwireTriggered s) = s"
| "str_of_exn (Exception s) = s"

text \<open>
  The guardrail's input is a string or a list of items. Of a list, an item with a
  \<^verbatim>\<open>text\<close> attribute and an item that is a string contribute their text; any other
  item contributes nothing.
\<close>

datatype input_item = item_with_text string | item_str string | item_other

datatype guardrail_input = input_str string | input_list "input_item list"

fun collect_text :: "input_item list \<Rightarrow> string \<Rightarrow> string" where
  "collect_text [] text_content = text_content"
| "collect_text (item_with_text t # rest) text_content = collect_text rest (text_content @ t @ '' '')"
| "collect_text (item_str s # rest) text_content = collect_text rest (text_content @ s @ '' '')"
| "collect_text (item_other # rest) text_content = collect_text rest text_content"

fun input_text_of :: "guardrail_input \<Rightarrow> string" where
  "input_text_of (input_list items) = strip (collect_text items [])"
| "input_text_of (input_str s) = s"

text \<open>
  \<open>run_guardrail_agent\<close> stands for \<^verbatim>\<open>Runner.run(guardrail_agent, ...)\<close>, the call to
  the external classifier: it returns the analysis or raises.
\<close>

definition professional_content_guardrail ::
  "(string \<Rightarrow> exn + ProfessionalContentOutput) \<Rightarrow> guardrail_input \<Rightarrow> exn + GuardrailFunctionOutput" where
  "professional_content_guardrail run_guardrail_agent inp =
     (case run_guardrail_agent
             (''Analise esta mensagem para ambiente profissional: '' @ input_text_of inp) of
        Inl e \<Rightarrow> Inl e
      | Inr analysis \<Rightarrow>
          Inr \<lparr>output_info = analysis,
               tripwire_triggered =
                 (is_inappropriate analysis \<and> float_gt (confidence_score analysis) (Finite 0.7))\<rparr>)"

section \<open>Assembling the streamed reply (agent/processor.py)\<close>

text \<open>A value that may be \<^verbatim>\<open>None\<close>, with Python's truth test and \<^verbatim>\<open>str()\<close>.\<close>

datatype pyval = PyNone | PyStr string

fun truthy :: "pyval \<Rightarrow> bool" where
  "truthy PyNone = False"
| "truthy (PyStr s) = (s \<noteq> [])"

fun py_str :: "pyval \<Rightarrow> string" where
  "py_str PyNone = ''None''"
| "py_str (PyStr s) = s"

text \<open>
  One entry of \<^verbatim>\<open>tool_calls\<close>: the dictionary with the keys \<^verbatim>\<open>tool_name\<close>,
  \<^verbatim>\<open>arguments\<close>, \<^verbatim>\<open>type\<close> (here \<open>call_type\<close>) and, once the entry has been
  updated, \<^verbatim>\<open>output\<close> (here \<open>call_output\<close>, \<open>None\<close> while the key is absent).
  The arguments are kept as text.
\<close>

record tool_info =
  tool_name :: string
  arguments :: string
  call_type :: string
  call_output :: "pyval option"

text \<open>
  The events of \<^verbatim>\<open>result.stream_events()\<close>. The data of a raw response event is a
  \<^verbatim>\<open>ResponseTextDeltaEvent\<close> with its delta, or another object with the delta it
  carries, if any. A run item is known by its \<^verbatim>\<open>type\<close>; its attributes
  \<^verbatim>\<open>name\<close>, \<^verbatim>\<open>arguments\<close> and \<^verbatim>\<open>output\<close> may be missing.
\<close>

datatype event_data = ResponseTextDeltaEvent string | other_data "string option"

datatype run_item =
    tool_call_item "string option" "string option"
  | file_search_call
  | tool_call_output_item "pyval option"
  | other_item

datatype event = raw_response_event event_data | run_item_stream_event run_item | other_event

text \<open>
  One call \<^verbatim>\<open>stream_callback(delta_text, full_response, tool_calls)\<close>, with the
  list as it is at the time of the call.
\<close>

type_synonym callback_call = "string \<times> string \<times> tool_info list"

record stream_state =
  full_response :: string
  tool_calls :: "tool_info list"
  emitted :: "callback_call list"

text \<open>
  \<open>await stream_callback(...)\<close>: the call is recorded in \<open>emitted\<close>; the callback is
  the caller's and may raise (\<open>Some e\<close>).
\<close>

definition emit ::
  "(callback_call \<Rightarrow> exn option) \<Rightarrow> string \<Rightarrow> stream_state \<Rightarrow> stream_state \<times> exn option" where
  "emit stream_callback delta_text st =
     (let call = (delta_text, full_response st, tool_calls st)
      in (st\<lparr>emitted := emitted st @ [call]\<rparr>, stream_callback call))"

text \<open>\<^verbatim>\<open>tool_calls[-1].update({"output": ..., "type": "tool_call_completed"})\<close>, when the list is not empty.\<close>

fun update_last :: "pyval \<Rightarrow> tool_info list \<Rightarrow> tool_info list" where
  "update_last out [] = []"
| "update_last out [t] = [t\<lparr>call_output := Some out, call_type := ''tool_call_completed''\<rparr>]"
| "update_last out (t # u # rest) = t # update_last out (u # rest)"

text \<open>The body of the \<^verbatim>\<open>async for\<close> loop, for one event.\<close>

fun handle_event ::
  "(callback_call \<Rightarrow> exn option) \<Rightarrow> event \<Rightarrow> stream_state \<Rightarrow> stream_state \<times> exn option" where
  "handle_event cb (raw_response_event (ResponseTextDeltaEvent delta)) st =
     (if delta \<noteq> []
      then emit cb delta (st\<lparr>full_response := full_response st @ delta\<rparr>)
      else (st, None))"
| "handle_event cb (raw_response_event (other_data None)) st = (st, None)"
| "handle_event cb (raw_response_event (other_data (Some delta))) st =
     (if delta \<noteq> []
      then emit cb delta (st\<lparr>full_response := full_response st @ delta\<rparr>)
      else (st, None))"
| "handle_event cb (run_item_stream_event (tool_call_item name args)) st =
     emit cb []
       (st\<lparr>tool_calls := tool_calls st @
          [\<lparr>tool_name = (case name of None \<Rightarrow> ''unknown'' | Some n \<Rightarrow> n),
            arguments = (case args of None \<Rightarrow> ''{}'' | Some a \<Rightarrow> a),
            call_type = ''tool_call_started'',
            call_output = None\<rparr>]\<rparr>)"
| "handle_event cb (run_item_stream_event file_search_call) st =
     emit cb []
       (st\<lparr>tool_calls := tool_calls st @
          [\<lparr>tool_name = ''file_search'', arguments = ''{}'',
            call_type = ''file_search_call'', call_output = None\<rparr>]\<rparr>)"
| "handle_event cb (run_item_stream_event (tool_call_output_item out)) st =
     (st\<lparr>tool_calls :=
          update_last (case out of None \<Rightarrow> PyNone | Some v \<Rightarrow> v) (tool_calls st)\<rparr>, None)"
| "handle_event cb (run_item_stream_event other_item) st = (st, None)"
| "handle_event cb other_event st = (st, None)"

text \<open>The loop over the events that the stream yields; an exception ends it.\<close>

fun consume_events ::
  "(callback_call \<Rightarrow> exn option) \<Rightarrow> event list \<Rightarrow> stream_state \<Rightarrow> stream_state \<times> exn option" where
  "consume_events cb [] st = (st, None)"
| "consume_events cb (ev # evs) st =
     (case handle_event cb ev st of
        (st', Some e) \<Rightarrow> (st', Some e)
      | (st', None) \<Rightarrow> consume_events cb evs st')"

text \<open>
  What \<^verbatim>\<open>Runner.run_streamed\<close> returns: the events the stream yields, the exception
  that iterating the stream raises after them (if any), and \<^verbatim>\<open>final_output\<close>.
\<close>

record run_result_streaming =
  stream_events :: "event list"
  stream_error :: "exn option"
  final_output :: pyval

record usage =
  input_tokens :: int
  output_tokens :: int
  total_tokens :: int

record agent_response =
  response_text :: string
  response_tools :: "tool_info list"
  token_usage :: usage

datatype agent_input = text_input string | vision_input string "string list"

text \<open>
  The collaborators of \<^verbatim>\<open>process_message\<close> that are not in these sources: keyword
  detection and the two integration paths of \<^verbatim>\<open>agent/mcp_processor\<close> and
  \<^verbatim>\<open>agent/mcp_streaming\<close>, the SDK's runner, and the caller's stream callback. An
  integration path returns a response or raises, and reports the callback calls it made.
\<close>

record environment =
  detect_zapier_mcp_needed :: "string \<Rightarrow> string option"
  process_message_with_enhanced_multiturn_mcp ::
    "string \<Rightarrow> string \<Rightarrow> string list option \<Rightarrow> (exn + agent_response) \<times> callback_call list"
  process_message_with_zapier_mcp_streaming ::
    "string \<Rightarrow> string \<Rightarrow> string list option \<Rightarrow> (exn + agent_response) \<times> callback_call list"
  run_streamed :: "agent_input \<Rightarrow> exn + run_result_streaming"
  stream_callback :: "callback_call \<Rightarrow> exn option"

definition zero_usage :: usage where
  "zero_usage = \<lparr>input_tokens = 0, output_tokens = 0, total_tokens = 0\<rparr>"

definition GUARDRAIL_BLOCKED_TEXT :: string where
  "GUARDRAIL_BLOCKED_TEXT =
     ''Desculpe, mas nao posso responder a esse tipo de conteudo em um ambiente profissional. Por favor, mantenha as conversas relacionadas ao trabalho e produtividade.''"

text \<open>The handler of the outer \<^verbatim>\<open>except Exception as e\<close>.\<close>

definition error_response :: "exn \<Rightarrow> agent_response" where
  "error_response e =
     \<lparr>response_text =
        (if str_in ''rate_limit'' (lower (str_of_exn e))
         then ''Muitas solicitacoes simultaneas. Tente novamente em alguns instantes.''
         else if str_in ''timeout'' (lower (str_of_exn e))
         then ''Timeout na resposta. Tente novamente com uma mensagem mais simples.''
         else if str_in ''connection'' (lower (str_of_exn e))
         then ''Erro de conexao. Tente novamente em alguns instantes.''
         else ''Erro no processamento da mensagem: '' @ str_of_exn e),
      response_tools = [],
      token_usage = zero_usage\<rparr>"

definition prepare_input :: "string \<Rightarrow> string list option \<Rightarrow> agent_input" where
  "prepare_input message image_urls =
     (case image_urls of
        None \<Rightarrow> text_input message
      | Some urls \<Rightarrow> if urls \<noteq> [] then vision_input message urls else text_input message)"

text \<open>
  \<^verbatim>\<open>full_response or str(result.final_output) if result.final_output else "No response generated."\<close>:
  the conditional binds looser than \<^verbatim>\<open>or\<close>.
\<close>

definition final_text_of :: "string \<Rightarrow> pyval \<Rightarrow> string" where
  "final_text_of full final =
     (if truthy final then (if full \<noteq> [] then full else py_str final)
      else ''No response generated.'')"

text \<open>
  The native path: the \<^verbatim>\<open>try\<close> block that runs the agent with streaming. The result
  is the response and the callback calls made.
\<close>

definition native_processing ::
  "environment \<Rightarrow> string \<Rightarrow> string list option \<Rightarrow> agent_response \<times> callback_call list" where
  "native_processing env message image_urls =
     (case run_streamed env (prepare_input message image_urls) of
        Inl (InputGuardrailTripwireTriggered s) \<Rightarrow>
          (\<lparr>response_text = GUARDRAIL_BLOCKED_TEXT, response_tools = [],
            token_usage = zero_usage\<rparr>, [])
      | Inl (Exception s) \<Rightarrow> (error_response (Exception s), [])
      | Inr result \<Rightarrow>
          (case consume_events (stream_callback env) (stream_events result)
                  \<lparr>full_response = [], tool_calls = [], emitted = []\<rparr> of
             (st, Some e) \<Rightarrow> (error_response e, emitted st)
           | (st, None) \<Rightarrow>
               (case stream_error result of
                  Some e \<Rightarrow> (error_response e, emitted st)
                | None \<Rightarrow>
                    (\<lparr>response_text = final_text_of (full_response st) (final_output result),
                      response_tools = tool_calls st,
                      token_usage = zero_usage\<rparr>, emitted st))))"

text \<open>
  \<^verbatim>\<open>process_message\<close>: when a keyword names an integration, the enhanced path is
  tried, then the streaming path, and the native path is the last resort.
\<close>

definition process_message ::
  "environment \<Rightarrow> string \<Rightarrow> string list option \<Rightarrow> agent_response \<times> callback_call list" where
  "process_message env message image_urls =
     (case detect_zapier_mcp_needed env message of
        None \<Rightarrow> native_processing env message image_urls
      | Some mcp_key \<Rightarrow>
          if mcp_key = [] then native_processing env message image_urls
          else
            (case process_message_with_enhanced_multiturn_mcp env mcp_key message image_urls of
               (Inr response, calls) \<Rightarrow> (response, calls)
             | (Inl e, calls) \<Rightarrow>
                 (case process_message_with_zapier_mcp_streaming env mcp_key message image_urls of
                    (Inr response, calls2) \<Rightarrow> (response, calls @ calls2)
                  | (Inl e2, calls2) \<Rightarrow>
                      (case native_processing env message image_urls of
                         (response, calls3) \<Rightarrow> (response, calls @ calls2 @ calls3)))))"

text \<open>
  The tool-call list in the words of the spec, to compare with the loop above. A
  ``tool call started'' event is a run item of type \<^verbatim>\<open>tool_call_item\<close>; the loop
  also opens an entry for a run item of type \<^verbatim>\<open>file_search_call\<close>. The events that
  follow an event that opens an entry, up to the next such event, are the ones that can
  complete the entry: it is completed with the last output among them, and stays as it
  was opened when there is none.
\<close>

fun is_tool_call_started :: "event \<Rightarrow> bool" where
  "is_tool_call_started (run_item_stream_event (tool_call_item name args)) = True"
| "is_tool_call_started ev = False"

fun is_file_search_call :: "event \<Rightarrow> bool" where
  "is_file_search_call (run_item_stream_event file_search_call) = True"
| "is_file_search_call ev = False"

definition opens_entry :: "event \<Rightarrow> bool" where
  "opens_entry ev = (is_tool_call_started ev \<or> is_file_search_call ev)"

fun outputs_of :: "event list \<Rightarrow> pyval list" where
  "outputs_of [] = []"
| "outputs_of (run_item_stream_event (tool_call_output_item None) # evs) = PyNone # outputs_of evs"
| "outputs_of (run_item_stream_event (tool_call_output_item (Some v)) # evs) = v # outputs_of evs"
| "outputs_of (ev # evs) = outputs_of evs"

definition started_entry :: "string option \<Rightarrow> string option \<Rightarrow> tool_info" where
  "started_entry name args =
     \<lparr>tool_name = (case name of None \<Rightarrow> ''unknown'' | Some n \<Rightarrow> n),
      arguments = (case args of None \<Rightarrow> ''{}'' | Some a \<Rightarrow> a),
      call_type = ''tool_call_started'',
      call_output = None\<rparr>"

definition file_search_entry :: tool_info where
  "file_search_entry =
     \<lparr>tool_name = ''file_search'', arguments = ''{}'',
      call_type = ''file_search_call'', call_output = None\<rparr>"

definition expected_entry :: "tool_info \<Rightarrow> event list \<Rightarrow> tool_info" where
  "expected_entry opened following =
     (if outputs_of following = [] then opened
      else opened
             \<lparr>call_output := Some (last (outputs_of following)),
              call_type := ''tool_call_completed''\<rparr>)"

fun expected_tool_calls :: "event list \<Rightarrow> tool_info list" where
  "expected_tool_calls [] = []"
| "expected_tool_calls (run_item_stream_event (tool_call_item name args) # evs) =
     expected_entry (started_entry name args) (takeWhile (\<lambda>ev. \<not> opens_entry ev) evs)
       # expected_tool_calls evs"
| "expected_tool_calls (run_item_stream_event file_search_call # evs) =
     expected_entry file_search_entry (takeWhile (\<lambda>ev. \<not> opens_entry ev) evs)
       # expected_tool_calls evs"
| "expected_tool_calls (ev # evs) = expected_tool_calls evs"



definition failing_provider :: environment where
  "failing_provider =
     \<lparr>detect_zapier_mcp_needed = (\<lambda>message. None),
      process_message_with_enhanced_multiturn_mcp = (\<lambda>k m i. (Inl (Exception []), [])),
      process_message_with_zapier_mcp_streaming = (\<lambda>k m i. (Inl (Exception []), [])),
      run_streamed = (\<lambda>agent_input.
        Inl (Exception ''Error code: 401 - Incorrect API key provided: sk-proj-1234'')),
      stream_callback = (\<lambda>call. None)\<rparr>"

text \<open>
  One more run: text, a web search that completes, and a second tool call whose output
  never arrives.
\<close>

definition two_tool_calls :: environment where
  "two_tool_calls =
     \<lparr>detect_zapier_mcp_needed = (\<lambda>message. None),
      process_message_with_enhanced_multiturn_mcp = (\<lambda>k m i. (Inl (Exception []), [])),
      process_message_with_zapier_mcp_streaming = (\<lambda>k m i. (Inl (Exception []), [])),
      run_streamed = (\<lambda>agent_input.
        Inr \<lparr>stream_events =
               [raw_response_event (ResponseTextDeltaEvent ''Vou ''),
                run_item_stream_event (tool_call_item (Some ''web_search'') None),
                raw_response_event (ResponseTextDeltaEvent ''buscar.''),
                run_item_stream_event (tool_call_output_item (Some (PyStr ''ok''))),
                run_item_stream_event (tool_call_item None None),
                raw_response_event (other_data (Some '' Pronto.''))],
             stream_error = None,
             final_output = PyStr ''Vou buscar. Pronto.''\<rparr>),
      stream_callback = (\<lambda>call. None)\<rparr>"

section \<open>Retrying after a processing error (server/message\_processor.py)\<close>











section \<open>Deduplicating inbound events (server/event\_handlers.py)\<close>

text \<open>
  An inbound event, with the fields the handlers read (\<^verbatim>\<open>channel\<close>, \<^verbatim>\<open>user\<close>,
  \<^verbatim>\<open>text\<close>, \<^verbatim>\<open>ts\<close>, \<^verbatim>\<open>thread_ts\<close>); \<^verbatim>\<open>event.get\<close> gives
  \<^verbatim>\<open>None\<close> for a field the event lacks, and the empty string for a missing text.
\<close>

record slack_event =
  event_channel :: "string option"
  event_user :: "string option"
  event_text :: string
  event_ts :: "string option"
  event_thread_ts :: "string option"

text \<open>How an f-string prints a value that may be \<^verbatim>\<open>None\<close>, and Python's truth test on it.\<close>

fun fmt :: "string option \<Rightarrow> string" where
  "fmt None = ''None''"
| "fmt (Some s) = s"

fun present :: "string option \<Rightarrow> bool" where
  "present None = False"
| "present (Some s) = (s \<noteq> [])"

definition message_key :: "slack_event \<Rightarrow> string" where
  "message_key event = fmt (event_channel event) @ ''_'' @ fmt (event_ts event) @ ''_'' @ fmt (event_user event)"

text \<open>
  What the handlers consult: the bot's own user id, whether a channel is a direct-message
  channel (\<^verbatim>\<open>_is_dm_channel\<close>, false when the lookup raises), whether the global
  agent is set, and the order in which \<^verbatim>\<open>list(self.processed_messages)\<close> lists a
  set. Python fixes no order for a set of strings, so the order is a parameter.
\<close>

record handler_env =
  bot_user_id :: string
  is_dm_channel :: "string option \<Rightarrow> bool"
  agent_available :: bool
  list_of_set :: "string set \<Rightarrow> string list"

text \<open>Where a handler sends an event it accepts.\<close>

datatype dispatch = to_process_message slack_event | to_think_command slack_event

definition handle_message_events ::
  "handler_env \<Rightarrow> string set \<Rightarrow> slack_event \<Rightarrow> string set \<times> dispatch option" where
  "handle_message_events env processed_messages event =
     (if \<not> is_dm_channel env (event_channel event) then (processed_messages, None)
      else if event_user event = Some (bot_user_id env) then (processed_messages, None)
      else if message_key event \<in> processed_messages then (processed_messages, None)
      else (insert (message_key event) processed_messages, Some (to_process_message event)))"

text \<open>
  The pruning of the mention handler: once the set holds more than 10000 keys, the first
  1000 keys of its listing are discarded.
\<close>

definition prune :: "handler_env \<Rightarrow> string set \<Rightarrow> string set" where
  "prune env processed_messages =
     (if card processed_messages > 10000
      then processed_messages - set (take 1000 (list_of_set env processed_messages))
      else processed_messages)"

text \<open>
  \<^verbatim>\<open>re.sub(pattern, "", text).strip()\<close>, the pattern being the bot's user id between
  \<^verbatim>\<open><@\<close> and \<^verbatim>\<open>>\<close>: every mention of the bot is cut out.
\<close>

definition clean_text :: "handler_env \<Rightarrow> string \<Rightarrow> string" where
  "clean_text env t = strip (concat (split t (''<@'' @ bot_user_id env @ ''>'')))"

definition handle_app_mention_events ::
  "handler_env \<Rightarrow> string set \<Rightarrow> slack_event \<Rightarrow> string set \<times> dispatch option" where
  "handle_app_mention_events env processed_messages event =
     (if \<not> (present (event_channel event) \<and> present (event_user event) \<and> present (event_ts event))
      then (processed_messages, None)
      else if \<not> agent_available env then (processed_messages, None)
      else if event_user event = Some (bot_user_id env) then (processed_messages, None)
      else if is_dm_channel env (event_channel event) then (processed_messages, None)
      else if message_key event \<in> processed_messages then (processed_messages, None)
      else
        (prune env (insert (message_key event) processed_messages),
         Some (if startswith (strip (clean_text env (event_text event))) ''+think''
               then to_think_command event else to_process_message event)))"

text \<open>
  An example for the pruning: 10000 keys processed earlier (channel \<^verbatim>\<open>C1\<close>, user
  \<^verbatim>\<open>U1\<close>, time stamps of one to 10000 sevens), one more mention by user \<^verbatim>\<open>U2\<close>, and a
  set order that lists the key of that mention first.
\<close>

definition earlier_keys :: "string list" where
  "earlier_keys = map (\<lambda>n. ''C1_'' @ replicate n (CHR ''7'') @ ''_U1'') [1..<10001]"

definition late_mention :: slack_event where
  "late_mention =
     \<lparr>event_channel = Some ''C1'', event_user = Some ''U2'',
      event_text = ''<@U057233T98A> bom dia'', event_ts = Some ''1700000000.000100'',
      event_thread_ts = None\<rparr>"

definition newest_first :: handler_env where
  "newest_first =
     \<lparr>bot_user_id = ''U057233T98A'',
      is_dm_channel = (\<lambda>channel_id. False),
      agent_available = True,
      list_of_set = (\<lambda>keys. ''C1_1700000000.000100_U2'' # earlier_keys)\<rparr>"

section \<open>The context budget (server/message\_processor.py and the context manager)\<close>






section \<open>Properties of strings\<close>

lemma startswith_iff: "startswith s k \<longleftrightarrow> (\<exists>q. s = k @ q)"
  by (induction s k rule: startswith.induct) auto

lemma str_in_iff: "str_in k s \<longleftrightarrow> (\<exists>p q. s = p @ k @ q)"
proof (induction s)
  case Nil
  then show ?case by auto
next
  case (Cons c cs)
  show ?case
  proof
    assume "str_in k (c # cs)"
    then consider "startswith (c # cs) k" | "str_in k cs" by auto
    then show "\<exists>p q. c # cs = p @ k @ q"
    proof cases
      case 1
      then obtain q where "c # cs = k @ q" by (auto simp: startswith_iff)
      then have "c # cs = [] @ k @ q" by simp
      then show ?thesis by blast
    next
      case 2
      then obtain p q where "cs = p @ k @ q" using Cons.IH by auto
      then have "c # cs = (c # p) @ k @ q" by simp
      then show ?thesis by blast
    qed
  next
    assume "\<exists>p q. c # cs = p @ k @ q"
    then obtain p q where pq: "c # cs = p @ k @ q" by auto
    show "str_in k (c # cs)"
    proof (cases p)
      case Nil
      with pq have "startswith (c # cs) k" by (auto simp: startswith_iff)
      then show ?thesis by simp
    next
      case (Cons a p')
      with pq have "cs = p' @ k @ q" by simp
      then have "str_in k cs" using Cons.IH by auto
      then show ?thesis by simp
    qed
  qed
qed

lemma lower_append: "lower (a @ b) = lower a @ lower b"
  by (simp add: lower_def)

lemma lower_char_idem: "lower_char (lower_char c) = lower_char c"
  by (auto simp: lower_char_def)

lemma lower_idem: "lower (lower s) = lower s"
  by (simp add: lower_def lower_char_idem)

lemma str_in_lower: "str_in k s \<Longrightarrow> str_in (lower k) (lower s)"
  unfolding str_in_iff by (metis lower_append)

lemma str_in_trans: "str_in a b \<Longrightarrow> str_in b c \<Longrightarrow> str_in a c"
proof -
  assume "str_in a b" "str_in b c"
  then obtain p q p' q' where "b = p @ a @ q" "c = p' @ b @ q'" by (auto simp: str_in_iff)
  then have "c = (p' @ p) @ a @ (q @ q')" by simp
  then show ?thesis unfolding str_in_iff by blast
qed

section \<open>Keyword routing\<close>

lemma first_match_key:
  "mcp_key_of (get_mcp_by_keywords message) = List.find (mcp_matches (lower message)) PRIORITY_ORDER"
  by (simp add: get_mcp_by_keywords_def PRIORITY_ORDER_def ZAPIER_MCPS_def mcp_key_of_def
      mcp_matches_def)

lemma calendar_in_phrase:
  "str_in ''calendar'' (lower ''preciso ver minha agenda no calendar hoje'')"
  by (simp add: lower_def lower_char_def)

text \<open>
  Claim C8, as amended. For every message, \<^verbatim>\<open>get_mcp_by_keywords\<close> lowers the message
  and returns the first integration of \<^verbatim>\<open>PRIORITY_ORDER\<close> one of whose keywords
  occurs in the lowered message, and nothing when there is none; the case of the letters
  of the message does not matter. A message that contains
  \<^verbatim>\<open>preciso ver minha agenda no calendar hoje\<close> is routed to Google Calendar provided
  its lowered text contains no keyword of the four integrations that come before the
  calendar in the order (\<^verbatim>\<open>drive\<close>, which every Google Drive keyword contains,
  \<^verbatim>\<open>everhour\<close>, \<^verbatim>\<open>gmail\<close>, \<^verbatim>\<open>asana\<close>).
\<close>

theorem get_mcp_by_keywords_first_match:
  "mcp_key_of (get_mcp_by_keywords message) =
     List.find (mcp_matches (lower message)) PRIORITY_ORDER
   \<and> get_mcp_by_keywords (lower message) = get_mcp_by_keywords message
   \<and> (str_in ''preciso ver minha agenda no calendar hoje'' message
        \<and> \<not> str_in ''drive'' (lower message) \<and> \<not> str_in ''everhour'' (lower message)
        \<and> \<not> str_in ''gmail'' (lower message) \<and> \<not> str_in ''asana'' (lower message)
      \<longrightarrow> mcp_key_of (get_mcp_by_keywords message) = Some ''mcpGoogleCalendar'')"
proof (intro conjI impI)
  show "mcp_key_of (get_mcp_by_keywords message) =
     List.find (mcp_matches (lower message)) PRIORITY_ORDER"
    by (rule first_match_key)
  show "get_mcp_by_keywords (lower message) = get_mcp_by_keywords message"
    by (simp add: get_mcp_by_keywords_def lower_idem)
next
  assume a: "str_in ''preciso ver minha agenda no calendar hoje'' message
        \<and> \<not> str_in ''drive'' (lower message) \<and> \<not> str_in ''everhour'' (lower message)
        \<and> \<not> str_in ''gmail'' (lower message) \<and> \<not> str_in ''asana'' (lower message)"
  then have "str_in (lower ''preciso ver minha agenda no calendar hoje'') (lower message)"
    using str_in_lower by blast
  with calendar_in_phrase have cal: "str_in ''calendar'' (lower message)"
    using str_in_trans by blast
  have d1: "\<not> str_in ''google drive'' (lower message)"
  proof
    assume "str_in ''google drive'' (lower message)"
    moreover have "str_in ''drive'' ''google drive''" by simp
    ultimately have "str_in ''drive'' (lower message)" using str_in_trans by blast
    with a show False by simp
  qed
  have d2: "\<not> str_in ''gdrive'' (lower message)"
  proof
    assume "str_in ''gdrive'' (lower message)"
    moreover have "str_in ''drive'' ''gdrive''" by simp
    ultimately have "str_in ''drive'' (lower message)" using str_in_trans by blast
    with a show False by simp
  qed
  from a cal d1 d2 show "mcp_key_of (get_mcp_by_keywords message) = Some ''mcpGoogleCalendar''"
    by (simp add: get_mcp_by_keywords_def PRIORITY_ORDER_def ZAPIER_MCPS_def mcp_key_of_def)
qed

text \<open>
  The theorem at two messages: one in capitals that also names Slack, which comes after
  the calendar, and one that contains the phrase.
\<close>

theorem get_mcp_by_keywords_first_match_witness:
  "mcp_key_of (get_mcp_by_keywords ''Preciso ver minha agenda no calendar hoje, no Slack'') =
     Some ''mcpGoogleCalendar''
   \<and> str_in ''preciso ver minha agenda no calendar hoje''
        ''ola: preciso ver minha agenda no calendar hoje''
   \<and> mcp_key_of (get_mcp_by_keywords ''ola: preciso ver minha agenda no calendar hoje'') =
     Some ''mcpGoogleCalendar''"
proof -
  have 1: "mcp_key_of (get_mcp_by_keywords ''Preciso ver minha agenda no calendar hoje, no Slack'') =
     List.find (mcp_matches (lower ''Preciso ver minha agenda no calendar hoje, no Slack'')) PRIORITY_ORDER"
    using get_mcp_by_keywords_first_match [of "''Preciso ver minha agenda no calendar hoje, no Slack''"]
    by blast
  have 2: "str_in ''preciso ver minha agenda no calendar hoje''
        ''ola: preciso ver minha agenda no calendar hoje''
        \<and> \<not> str_in ''drive'' (lower ''ola: preciso ver minha agenda no calendar hoje'')
        \<and> \<not> str_in ''everhour'' (lower ''ola: preciso ver minha agenda no calendar hoje'')
        \<and> \<not> str_in ''gmail'' (lower ''ola: preciso ver minha agenda no calendar hoje'')
        \<and> \<not> str_in ''asana'' (lower ''ola: preciso ver minha agenda no calendar hoje'')"
    by (simp add: lower_def lower_char_def)
  have 3: "mcp_key_of (get_mcp_by_keywords ''ola: preciso ver minha agenda no calendar hoje'') =
     Some ''mcpGoogleCalendar''"
    using get_mcp_by_keywords_first_match [of "''ola: preciso ver minha agenda no calendar hoje''"] 2
    by blast
  have 4: "List.find (mcp_matches (lower ''Preciso ver minha agenda no calendar hoje, no Slack'')) PRIORITY_ORDER
     = Some ''mcpGoogleCalendar''"
    by (simp add: PRIORITY_ORDER_def ZAPIER_MCPS_def mcp_matches_def lower_def lower_char_def)
  from 1 2 3 4 show ?thesis by simp
qed

text \<open>
  Claim C8 as stated fails: a message that contains the calendar phrase and also the word
  \<^verbatim>\<open>drive\<close> is routed to Google Drive, which comes first in the priority order.
\<close>

theorem calendar_phrase_counterexample:
  "str_in ''preciso ver minha agenda no calendar hoje''
      ''preciso ver minha agenda no calendar hoje e salvar no drive''
   \<and> mcp_key_of (get_mcp_by_keywords ''preciso ver minha agenda no calendar hoje e salvar no drive'') =
       Some ''google_drive''"
  by (simp add: get_mcp_by_keywords_def PRIORITY_ORDER_def ZAPIER_MCPS_def mcp_key_of_def
      lower_def lower_char_def)

section \<open>The guardrail's tripwire\<close>

lemma float_le_not_gt: "float_le a b \<Longrightarrow> \<not> float_gt a b"
  by (induction a b rule: float_gt.induct) auto

text \<open>
  Claim C2. When the classifier returns a verdict, the guardrail returns it with the
  tripwire set exactly when the verdict is flagged inappropriate and its confidence is
  strictly greater than 0.7; a verdict whose confidence is at most 0.7 never sets the
  tripwire, flagged or not.
\<close>

theorem tripwire_needs_high_confidence:
  assumes "run_guardrail_agent
             (''Analise esta mensagem para ambiente profissional: '' @ input_text_of inp) = Inr analysis"
  shows "\<exists>out. professional_content_guardrail run_guardrail_agent inp = Inr out
           \<and> output_info out = analysis
           \<and> (tripwire_triggered out \<longleftrightarrow>
                is_inappropriate analysis \<and> float_gt (confidence_score analysis) (Finite 0.7))
           \<and> (\<forall>c. confidence_score analysis = Finite c \<longrightarrow>
                (tripwire_triggered out \<longleftrightarrow> is_inappropriate analysis \<and> c > 7 / 10))
           \<and> (float_le (confidence_score analysis) (Finite 0.7) \<longrightarrow> \<not> tripwire_triggered out)"
  using assms by (auto simp: professional_content_guardrail_def dest: float_le_not_gt)

text \<open>The theorem at a flagged verdict of confidence exactly 0.7: the tripwire stays off.\<close>

theorem tripwire_needs_high_confidence_witness:
  "float_le (Finite 0.7) (Finite 0.7)
   \<and> (\<exists>out. professional_content_guardrail
         (\<lambda>prompt. Inr \<lparr>is_inappropriate = True, category = ''off_topic'',
                         reasoning = ''receita de bolo'', confidence_score = Finite 0.7\<rparr>)
         (input_str ''como fazer um bolo?'') = Inr out
       \<and> \<not> tripwire_triggered out)"
proof -
  have "(\<lambda>prompt. Inr \<lparr>is_inappropriate = True, category = ''off_topic'',
                         reasoning = ''receita de bolo'', confidence_score = Finite 0.7\<rparr>)
          (''Analise esta mensagem para ambiente profissional: ''
             @ input_text_of (input_str ''como fazer um bolo?''))
        = (Inr \<lparr>is_inappropriate = True, category = ''off_topic'',
                         reasoning = ''receita de bolo'', confidence_score = Finite 0.7\<rparr>
            :: exn + ProfessionalContentOutput)"
    by simp
  from tripwire_needs_high_confidence [OF this] show ?thesis by auto
qed

section \<open>The tool-call list\<close>

lemma update_last_snoc:
  "update_last v (ts @ [e]) = ts @ [e\<lparr>call_output := Some v, call_type := ''tool_call_completed''\<rparr>]"
proof (induction ts)
  case Nil
  then show ?case by simp
next
  case (Cons t ts)
  then show ?case by (cases "ts @ [e]") auto
qed

lemma foldl_update_last_snoc:
  "foldl (\<lambda>ts v. update_last v ts) (ts @ [e]) vs =
     ts @ [if vs = [] then e
           else e\<lparr>call_output := Some (last vs), call_type := ''tool_call_completed''\<rparr>]"
proof (induction vs arbitrary: e)
  case Nil
  then show ?case by simp
next
  case (Cons v vs)
  show ?case by (simp add: update_last_snoc Cons.IH)
qed

lemma foldl_update_last_Nil: "foldl (\<lambda>ts v. update_last v ts) [] vs = []"
  by (induction vs) auto

lemma emit_quiet:
  "cb (delta, full_response st, tool_calls st) = None \<Longrightarrow>
   emit cb delta st = (st\<lparr>emitted := emitted st @ [(delta, full_response st, tool_calls st)]\<rparr>, None)"
  by (simp add: emit_def Let_def)

lemma consume_events_tool_calls:
  assumes "\<forall>call. cb call = None"
  shows "snd (consume_events cb evs st) = None
         \<and> tool_calls (fst (consume_events cb evs st)) =
             foldl (\<lambda>ts v. update_last v ts) (tool_calls st)
               (outputs_of (takeWhile (\<lambda>ev. \<not> opens_entry ev) evs))
             @ expected_tool_calls evs"
proof (induction evs arbitrary: st)
  case Nil
  then show ?case by simp
next
  case (Cons ev evs)
  have q: "\<And>d s. emit cb d s = (s\<lparr>emitted := emitted s @ [(d, full_response s, tool_calls s)]\<rparr>, None)"
    using assms by (simp add: emit_quiet)
  note IH = Cons.IH
  show ?case
  proof (cases ev)
    case (raw_response_event d)
    then show ?thesis
    proof (cases d)
      case (ResponseTextDeltaEvent delta)
      with raw_response_event show ?thesis using IH by (simp add: q opens_entry_def)
    next
      case (other_data od)
      with raw_response_event show ?thesis using IH by (cases od) (simp_all add: q opens_entry_def)
    qed
  next
    case (run_item_stream_event item)
    show ?thesis
    proof (cases item)
      case (tool_call_item name args)
      with run_item_stream_event show ?thesis
        using IH [of "st\<lparr>tool_calls := tool_calls st @ [started_entry name args],
                         emitted := emitted st @ [([], full_response st,
                           tool_calls st @ [started_entry name args])]\<rparr>"]
        by (simp add: q foldl_update_last_snoc expected_entry_def started_entry_def opens_entry_def)
    next
      case file_search_call
      with run_item_stream_event show ?thesis
        using IH [of "st\<lparr>tool_calls := tool_calls st @ [file_search_entry],
                         emitted := emitted st @ [([], full_response st,
                           tool_calls st @ [file_search_entry])]\<rparr>"]
        by (simp add: q foldl_update_last_snoc expected_entry_def file_search_entry_def
            opens_entry_def)
    next
      case (tool_call_output_item out)
      with run_item_stream_event show ?thesis using IH by (cases out) (simp_all add: opens_entry_def)
    next
      case other_item
      with run_item_stream_event show ?thesis using IH by (simp add: opens_entry_def)
    qed
  next
    case other_event
    then show ?thesis using IH by (simp add: opens_entry_def)
  qed
qed

lemma length_expected_tool_calls:
  "length (expected_tool_calls evs) =
     length (filter is_tool_call_started evs) + length (filter is_file_search_call evs)"
  by (induction evs rule: expected_tool_calls.induct) auto

lemma outputs_of_Cons_Nil: "outputs_of (ev # evs) = [] \<Longrightarrow> outputs_of evs = []"
  by (cases "ev # evs" rule: outputs_of.cases) auto

lemma expected_tool_calls_Cons:
  "set (expected_tool_calls (ev # evs)) \<subseteq>
     {expected_entry (started_entry name args) (takeWhile (\<lambda>ev. \<not> opens_entry ev) evs)
        | name args. \<not> is_file_search_call ev}
     \<union> {expected_entry file_search_entry (takeWhile (\<lambda>ev. \<not> opens_entry ev) evs)
        | x :: unit. is_file_search_call ev}
     \<union> set (expected_tool_calls evs)"
  by (cases "ev # evs" rule: expected_tool_calls.cases) auto

lemma in_expected_tool_calls:
  "t \<in> set (expected_tool_calls evs) \<Longrightarrow> \<forall>ev \<in> set evs. \<not> is_file_search_call ev \<Longrightarrow>
   \<exists>name args seg. set seg \<subseteq> set evs \<and> t = expected_entry (started_entry name args) seg"
proof (induction evs)
  case Nil
  then show ?case by simp
next
  case (Cons ev evs)
  from Cons.prems(2) have nf: "\<not> is_file_search_call ev" "\<forall>ev \<in> set evs. \<not> is_file_search_call ev"
    by simp_all
  from Cons.prems(1) expected_tool_calls_Cons [of ev evs] nf(1)
  consider name args where
      "t = expected_entry (started_entry name args) (takeWhile (\<lambda>ev. \<not> opens_entry ev) evs)"
    | "t \<in> set (expected_tool_calls evs)"
    by auto
  then show ?case
  proof cases
    case 1
    have "set (takeWhile (\<lambda>ev. \<not> opens_entry ev) evs) \<subseteq> set (ev # evs)"
      using set_takeWhileD by fastforce
    with 1 show ?thesis by blast
  next
    case 2
    from Cons.IH [OF 2 nf(2)] obtain name args seg
      where "set seg \<subseteq> set evs" "t = expected_entry (started_entry name args) seg"
      by blast
    then have "set seg \<subseteq> set (ev # evs) \<and> t = expected_entry (started_entry name args) seg"
      by auto
    then show ?thesis by blast
  qed
qed

lemma outputs_of_subset_Nil:
  "outputs_of evs = [] \<Longrightarrow> set seg \<subseteq> set evs \<Longrightarrow> outputs_of seg = []"
proof (induction seg)
  case Nil
  then show ?case by simp
next
  case (Cons ev seg)
  then have rest: "outputs_of seg = []" by simp
  from Cons.prems have "ev \<in> set evs" by simp
  with Cons.prems(1) have "\<forall>out. ev \<noteq> run_item_stream_event (tool_call_output_item out)"
  proof (induction evs)
    case Nil
    then show ?case by simp
  next
    case (Cons a evs)
    from Cons.prems(1) have tail: "outputs_of evs = []" by (rule outputs_of_Cons_Nil)
    show ?case
    proof (cases "ev = a")
      case True
      with Cons.prems(1) show ?thesis
        by (cases "a # evs" rule: outputs_of.cases) auto
    next
      case False
      with Cons.prems(2) have "ev \<in> set evs" by simp
      with Cons.IH tail show ?thesis by simp
    qed
  qed
  with rest show ?case by (cases "ev # seg" rule: outputs_of.cases) auto
qed

lemma expected_entry_status:
  "call_type (expected_entry (started_entry name args) seg) = ''tool_call_started''
     \<and> call_output (expected_entry (started_entry name args) seg) = None
   \<or> call_type (expected_entry (started_entry name args) seg) = ''tool_call_completed''
     \<and> call_output (expected_entry (started_entry name args) seg) \<noteq> None"
  by (simp add: expected_entry_def started_entry_def)

lemma native_tools:
  assumes "run_streamed env (prepare_input message image_urls) = Inr result"
      and "stream_error result = None"
      and "\<forall>call. stream_callback env call = None"
  shows "response_tools (fst (native_processing env message image_urls)) =
           expected_tool_calls (stream_events result)"
proof -
  let ?st0 = "\<lparr>full_response = [], tool_calls = [], emitted = []\<rparr>"
  obtain st x where c: "consume_events (stream_callback env) (stream_events result) ?st0 = (st, x)"
    by (cases "consume_events (stream_callback env) (stream_events result) ?st0")
  from consume_events_tool_calls [OF assms(3), of "stream_events result" ?st0] c
  have "x = None" and "tool_calls st = expected_tool_calls (stream_events result)"
    by (simp_all add: foldl_update_last_Nil)
  with c assms(1,2) show ?thesis by (simp add: native_processing_def)
qed

text \<open>
  Claim C5. Take a run that no integration keyword diverts, whose stream ends without an
  exception and whose callback does not raise. Then the \<^verbatim>\<open>tools\<close> list that
  \<^verbatim>\<open>process_message\<close> returns is the list of the spec's words: one entry for each
  event that opens one, in the order of the events, each completed exactly when an
  output event follows its opening before the next opening, and then carrying the last
  such output. Its length is the number of ``tool call started'' events plus the number
  of file-search items. For a sequence of text deltas, ``tool call started'' events, output
  events and events the loop ignores (no file-search item) it has exactly one entry for
  each ``tool call started'' event; each entry is either started, with no output, or
  completed, with an output; and with no output event at all every entry stays started.
\<close>

theorem tool_calls_follow_events:
  assumes "detect_zapier_mcp_needed env message = None"
      and "run_streamed env (prepare_input message image_urls) = Inr result"
      and "stream_error result = None"
      and "\<forall>call. stream_callback env call = None"
  shows "response_tools (fst (process_message env message image_urls)) =
           expected_tool_calls (stream_events result)
       \<and> length (response_tools (fst (process_message env message image_urls))) =
           length (filter is_tool_call_started (stream_events result))
           + length (filter is_file_search_call (stream_events result))
       \<and> ((\<forall>ev \<in> set (stream_events result). \<not> is_file_search_call ev) \<longrightarrow>
            length (response_tools (fst (process_message env message image_urls))) =
              length (filter is_tool_call_started (stream_events result))
            \<and> (\<forall>t \<in> set (response_tools (fst (process_message env message image_urls))).
                 call_type t = ''tool_call_started'' \<and> call_output t = None
                 \<or> call_type t = ''tool_call_completed'' \<and> call_output t \<noteq> None)
            \<and> (outputs_of (stream_events result) = [] \<longrightarrow>
                 (\<forall>t \<in> set (response_tools (fst (process_message env message image_urls))).
                    call_type t = ''tool_call_started'')))"
proof -
  let ?events = "stream_events result"
  have "process_message env message image_urls = native_processing env message image_urls"
    using assms(1) by (simp add: process_message_def)
  then have eq: "response_tools (fst (process_message env message image_urls)) =
           expected_tool_calls ?events"
    using native_tools [OF assms(2-4)] by simp
  have len: "length (expected_tool_calls ?events) =
           length (filter is_tool_call_started ?events)
           + length (filter is_file_search_call ?events)"
    by (rule length_expected_tool_calls)
  have restricted: "length (expected_tool_calls ?events) = length (filter is_tool_call_started ?events)
            \<and> (\<forall>t \<in> set (expected_tool_calls ?events).
                 call_type t = ''tool_call_started'' \<and> call_output t = None
                 \<or> call_type t = ''tool_call_completed'' \<and> call_output t \<noteq> None)
            \<and> (outputs_of ?events = [] \<longrightarrow>
                 (\<forall>t \<in> set (expected_tool_calls ?events). call_type t = ''tool_call_started''))"
    if nf: "\<forall>ev \<in> set ?events. \<not> is_file_search_call ev"
  proof (intro conjI ballI impI)
    from nf have "filter is_file_search_call ?events = []" by (simp add: filter_empty_conv)
    with len show "length (expected_tool_calls ?events) = length (filter is_tool_call_started ?events)"
      by simp
  next
    fix t assume "t \<in> set (expected_tool_calls ?events)"
    from in_expected_tool_calls [OF this nf] obtain name args seg
      where "t = expected_entry (started_entry name args) seg" by blast
    then show "call_type t = ''tool_call_started'' \<and> call_output t = None
                 \<or> call_type t = ''tool_call_completed'' \<and> call_output t \<noteq> None"
      using expected_entry_status [of name args seg] by simp
  next
    fix t assume none: "outputs_of ?events = []" and "t \<in> set (expected_tool_calls ?events)"
    from in_expected_tool_calls [OF this(2) nf] obtain name args seg
      where seg: "set seg \<subseteq> set ?events" "t = expected_entry (started_entry name args) seg"
      by blast
    from outputs_of_subset_Nil [OF none seg(1)] seg(2)
    show "call_type t = ''tool_call_started''"
      by (simp add: expected_entry_def started_entry_def)
  qed
  show ?thesis
    unfolding eq using len restricted by blast
qed

text \<open>The theorem at a run with two tool calls, the first of which completes.\<close>

theorem tool_calls_follow_events_witness:
  "response_tools (fst (process_message two_tool_calls ''busque as noticias'' None)) =
     [\<lparr>tool_name = ''web_search'', arguments = ''{}'', call_type = ''tool_call_completed'',
       call_output = Some (PyStr ''ok'')\<rparr>,
      \<lparr>tool_name = ''unknown'', arguments = ''{}'', call_type = ''tool_call_started'',
       call_output = None\<rparr>]
   \<and> length (filter is_tool_call_started
        [raw_response_event (ResponseTextDeltaEvent ''Vou ''),
         run_item_stream_event (tool_call_item (Some ''web_search'') None),
         raw_response_event (ResponseTextDeltaEvent ''buscar.''),
         run_item_stream_event (tool_call_output_item (Some (PyStr ''ok''))),
         run_item_stream_event (tool_call_item None None),
         raw_response_event (other_data (Some '' Pronto.''))]) = 2"
proof -
  let ?result = "\<lparr>stream_events =
               [raw_response_event (ResponseTextDeltaEvent ''Vou ''),
                run_item_stream_event (tool_call_item (Some ''web_search'') None),
                raw_response_event (ResponseTextDeltaEvent ''buscar.''),
                run_item_stream_event (tool_call_output_item (Some (PyStr ''ok''))),
                run_item_stream_event (tool_call_item None None),
                raw_response_event (other_data (Some '' Pronto.''))],
             stream_error = None,
             final_output = PyStr ''Vou buscar. Pronto.''\<rparr>"
  have 1: "detect_zapier_mcp_needed two_tool_calls ''busque as noticias'' = None"
    by (simp add: two_tool_calls_def)
  have 2: "run_streamed two_tool_calls (prepare_input ''busque as noticias'' None) = Inr ?result"
    by (simp add: two_tool_calls_def)
  have 3: "stream_error ?result = None" by simp
  have 4: "\<forall>call. stream_callback two_tool_calls call = None"
    by (simp add: two_tool_calls_def)
  from tool_calls_follow_events [OF 1 2 3 4]
  have "response_tools (fst (process_message two_tool_calls ''busque as noticias'' None)) =
          expected_tool_calls (stream_events ?result)"
    by blast
  then show ?thesis by (simp add: expected_entry_def started_entry_def opens_entry_def)
qed

section \<open>Guardrail trips and error texts\<close>




text \<open>
  Claim C9 fails on the code: an exception whose text mentions none of
  \<^verbatim>\<open>rate_limit\<close>, \<^verbatim>\<open>timeout\<close> and \<^verbatim>\<open>connection\<close> is shown to the user word
  for word after a fixed prefix, here with the fragment of a credential it carries.
\<close>

theorem raw_exception_text_shown:
  "process_message failing_provider ''bom dia'' None =
     (\<lparr>response_text =
         ''Erro no processamento da mensagem: Error code: 401 - Incorrect API key provided: sk-proj-1234'',
       response_tools = [],
       token_usage = \<lparr>input_tokens = 0, output_tokens = 0, total_tokens = 0\<rparr>\<rparr>, [])"
  by (simp add: failing_provider_def process_message_def native_processing_def
      prepare_input_def error_response_def zero_usage_def lower_def lower_char_def)

section \<open>Splitting long replies\<close>

lemma split_from_no_sep:
  "c \<notin> set s \<Longrightarrow> split_from (c # sep) piece s = [piece @ s]"
  by (induction s arbitrary: piece) auto

lemma split_sentence_then_b:
  "split_from ''. '' piece (replicate k (CHR ''a'') @ ''. b'') = [piece @ replicate k (CHR ''a''), ''b'']"
  by (induction k arbitrary: piece) auto

lemma hard_split_short:
  "length sentence \<le> max_length \<Longrightarrow> hard_split max_length parts sentence = Some (parts, sentence)"
  by (subst hard_split.simps) simp

lemma hard_split_step:
  "length sentence > max_length \<Longrightarrow>
   hard_split max_length parts sentence =
     hard_split max_length (parts @ [take max_length sentence]) (drop max_length sentence)"
  by (subst hard_split.simps) simp

text \<open>With a limit of at least one character every loop ends: the function returns.\<close>

lemma hard_split_returns:
  "0 < max_length \<Longrightarrow> \<exists>state. hard_split max_length parts sentence = Some state"
proof (induction "length sentence" arbitrary: sentence parts rule: less_induct)
  case less
  show ?case
  proof (cases "length sentence > max_length")
    case True
    with less.prems have "length (drop max_length sentence) < length sentence" by simp
    from less.hyps [OF this less.prems] True show ?thesis
      by (simp add: hard_split_step)
  next
    case False
    then show ?thesis by (simp add: hard_split_short)
  qed
qed

lemma split_sentences_returns:
  "0 < max_length \<Longrightarrow> \<exists>state'. split_sentences max_length sentences state = Some state'"
proof (induction sentences arbitrary: state)
  case Nil
  then show ?case by (cases state) simp
next
  case (Cons sentence rest)
  obtain parts current_part where st: "state = (parts, current_part)" by (cases state)
  from hard_split_returns [OF Cons.prems] obtain parts' sentence'
    where hs: "hard_split max_length parts sentence = Some (parts', sentence')"
    by fastforce
  show ?case
    unfolding st using Cons.IH [OF Cons.prems] hs by simp
qed

lemma split_paragraphs_returns:
  "0 < max_length \<Longrightarrow> \<exists>state'. split_paragraphs max_length paragraphs state = Some state'"
proof (induction paragraphs arbitrary: state)
  case Nil
  then show ?case by (cases state) simp
next
  case (Cons p rest)
  obtain parts current_part where st: "state = (parts, current_part)" by (cases state)
  from split_sentences_returns [OF Cons.prems] obtain parts1 current1
    where ss: "split_sentences max_length (split p SENTENCE_SEP) (parts, current_part) =
                 Some (parts1, current1)"
    by fastforce
  show ?case
    unfolding st using Cons.IH [OF Cons.prems] ss by auto
qed

lemma split_long_message_returns:
  "0 < max_length \<Longrightarrow> \<exists>parts. split_long_message message max_length = Some parts"
proof -
  assume "0 < max_length"
  from split_paragraphs_returns [OF this] obtain parts current_part
    where "split_paragraphs max_length (split message PARAGRAPH_SEP) ([], []) = Some (parts, current_part)"
    by fastforce
  then show ?thesis by (simp add: split_long_message_def)
qed

lemma strip_no_space:
  "s \<noteq> [] \<Longrightarrow> \<not> isspace (hd s) \<Longrightarrow> \<not> isspace (last s) \<Longrightarrow> strip s = s"
proof -
  assume a: "s \<noteq> []" "\<not> isspace (hd s)" "\<not> isspace (last s)"
  then have 1: "dropWhile isspace s = s" by (cases s) auto
  from a have "rev s \<noteq> []" "\<not> isspace (hd (rev s))" by (simp_all add: hd_rev)
  then have 2: "dropWhile isspace (rev s) = rev s" by (cases "rev s") auto
  show ?thesis by (simp add: strip_def 1 2)
qed

lemma oversized_part:
  assumes "1 \<le> n"
  shows "split_long_message (''a'' @ PARAGRAPH_SEP @ replicate (Suc n) (CHR ''b'')) n =
           Some [''a'', replicate (Suc n) (CHR ''b'')]"
proof -
  define bs where "bs = replicate (Suc n) (CHR ''b'')"
  define msg where "msg = ''a'' @ PARAGRAPH_SEP @ bs"
  have nl: "CHR 0x0A \<notin> set bs" by (simp add: bs_def)
  have len: "length bs = Suc n" by (simp add: bs_def)
  have nonempty: "bs \<noteq> []" by (simp add: bs_def)
  have paragraphs: "split msg PARAGRAPH_SEP = [''a'', bs]"
    using split_from_no_sep [OF nl, of "[CHR 0x0A]" "[]"]
    by (simp add: split_def PARAGRAPH_SEP_def msg_def)
  have sentences: "split ''a'' SENTENCE_SEP = [''a'']"
    by (simp add: split_def SENTENCE_SEP_def)
  have strip_bs: "strip bs = bs"
  proof (rule strip_no_space)
    show "bs \<noteq> []" by (rule nonempty)
    show "\<not> isspace (hd bs)" by (simp add: isspace_def bs_def)
    have "last bs = CHR ''b''" unfolding bs_def by (simp only: last_replicate)
    then show "\<not> isspace (last bs)" by (simp add: isspace_def)
  qed
  have strip_a: "strip (''a'' @ PARAGRAPH_SEP) = ''a''" "strip ''a'' = ''a''"
    by (simp_all add: strip_def PARAGRAPH_SEP_def isspace_def)
  have long: "\<not> length msg \<le> n"
    by (simp add: PARAGRAPH_SEP_def msg_def len)
  have loop: "split_paragraphs n [''a'', bs] ([], []) = Some ([''a''], bs)"
  proof (cases "n \<le> 2")
    case True
    with assms have hs: "hard_split n [] ''a'' = Some ([], ''a'')"
      by (simp add: hard_split_short)
    from True assms show ?thesis
      by (simp add: sentences hs strip_a len)
  next
    case False
    then show ?thesis
      using strip_a(1) by (simp add: PARAGRAPH_SEP_def len)
  qed
  have "split_long_message msg n = Some [''a'', bs]"
    using long nonempty
    by (simp add: split_long_message_def paragraphs loop strip_bs del: split_paragraphs.simps)
  then show ?thesis by (simp only: msg_def bs_def)
qed

lemma spurious_full_stop:
  assumes "5 \<le> n"
  shows "split_long_message (replicate (n + 2) (CHR ''a'') @ ''. b'') n =
           Some [replicate n (CHR ''a''), ''aab.'']"
proof -
  define as where "as = replicate (n + 2) (CHR ''a'')"
  define chunk where "chunk = replicate n (CHR ''a'')"
  define msg where "msg = as @ ''. b''"
  have len_as: "length as = n + 2" by (simp add: as_def)
  have nl: "CHR 0x0A \<notin> set msg" by (simp add: msg_def as_def)
  have paragraphs: "split msg PARAGRAPH_SEP = [msg]"
    using split_from_no_sep [OF nl, of "[CHR 0x0A]" "[]"]
    by (simp add: split_def PARAGRAPH_SEP_def)
  have sentences: "split msg SENTENCE_SEP = [as, ''b'']"
    using split_sentence_then_b [of "[]" "n + 2"]
    by (simp add: split_def SENTENCE_SEP_def msg_def as_def)
  have len: "length msg = n + 5" by (simp add: msg_def len_as)
  have t: "take n as = chunk"
    unfolding as_def chunk_def by (simp only: take_replicate) simp
  have "drop n as = replicate 2 (CHR ''a'')"
    unfolding as_def by (simp only: drop_replicate) simp
  then have d: "drop n as = ''aa''"
    by (simp add: numeral_2_eq_2)
  have hs: "hard_split n [] as = Some ([chunk], ''aa'')"
  proof -
    have "hard_split n [] as = hard_split n ([] @ [take n as]) (drop n as)"
      by (rule hard_split_step) (simp add: len_as)
    also have "\<dots> = hard_split n [chunk] ''aa''"
      by (simp only: t d append_Nil)
    also have "\<dots> = Some ([chunk], ''aa'')"
      using assms by (simp add: hard_split_short)
    finally show ?thesis .
  qed
  have loop2: "split_sentences n [as, ''b''] ([], []) = Some ([chunk], ''aab. '')"
    using assms by (simp add: hs len_as SENTENCE_SEP_def)
  have loop: "split_paragraphs n [msg] ([], []) = Some ([chunk], ''aab. '')"
    by (simp add: len sentences loop2 del: split_sentences.simps)
  have st: "strip ''aab. '' = ''aab.''"
    by (simp add: strip_def isspace_def)
  have "split_long_message msg n = Some [chunk, ''aab.'']"
    by (simp add: split_long_message_def len paragraphs loop st del: split_paragraphs.simps)
  then show ?thesis by (simp only: msg_def as_def chunk_def)
qed

text \<open>
  Claim C10 fails on the code, also at the limit of 3000 that the caller passes: a short
  paragraph followed by a paragraph of 3001 letters comes back as two parts, the second
  of 3001 characters. When \<open>current_part\<close> is not empty the next paragraph replaces it
  whole, and nothing cuts it down afterwards.
\<close>

theorem part_longer_than_max_length:
  "split_long_message (''a'' @ PARAGRAPH_SEP @ replicate 3001 (CHR ''b'')) 3000 =
     Some [''a'', replicate 3001 (CHR ''b'')]
   \<and> length (replicate 3001 (CHR ''b'')) > 3000"
  using oversized_part [of 3000] by simp

text \<open>
  Claim C7 fails on the code, also at the limit of 3000: of 3002 letters, a full stop, a
  space and the letter \<^verbatim>\<open>b\<close>, the parts are the first 3000 letters and
  \<^verbatim>\<open>aab.\<close>. The separator between \<^verbatim>\<open>aa\<close> and \<^verbatim>\<open>b\<close> is gone and a full stop
  that the text never had follows \<^verbatim>\<open>b\<close>. So no separator put back between the two
  parts gives the text again, and the parts joined as they are differ from the text with
  its separators taken out.
\<close>

theorem parts_do_not_rebuild_message:
  "split_long_message (replicate 3002 (CHR ''a'') @ ''. b'') 3000 =
     Some [replicate 3000 (CHR ''a''), ''aab.'']
   \<and> (\<forall>sep. replicate 3000 (CHR ''a'') @ sep @ ''aab.'' \<noteq> replicate 3002 (CHR ''a'') @ ''. b'')
   \<and> concat [replicate 3000 (CHR ''a''), ''aab.''] \<noteq>
       concat (split (replicate 3002 (CHR ''a'') @ ''. b'') SENTENCE_SEP)"
proof (intro conjI)
  show "split_long_message (replicate 3002 (CHR ''a'') @ ''. b'') 3000 =
     Some [replicate 3000 (CHR ''a''), ''aab.'']"
    using spurious_full_stop [of 3000] by simp
  show "\<forall>sep. replicate 3000 (CHR ''a'') @ sep @ ''aab.'' \<noteq> replicate 3002 (CHR ''a'') @ ''. b''"
  proof (intro allI notI)
    fix sep :: string
    assume "replicate 3000 (CHR ''a'') @ sep @ ''aab.'' = replicate 3002 (CHR ''a'') @ ''. b''"
    then have "last (replicate 3000 (CHR ''a'') @ sep @ ''aab.'') =
               last (replicate 3002 (CHR ''a'') @ ''. b'')"
      by (rule arg_cong)
    then show False by simp
  qed
  show "concat [replicate 3000 (CHR ''a''), ''aab.''] \<noteq>
       concat (split (replicate 3002 (CHR ''a'') @ ''. b'') SENTENCE_SEP)"
  proof
    assume eq: "concat [replicate 3000 (CHR ''a''), ''aab.''] =
       concat (split (replicate 3002 (CHR ''a'') @ ''. b'') SENTENCE_SEP)"
    have "split (replicate 3002 (CHR ''a'') @ ''. b'') SENTENCE_SEP =
            [replicate 3002 (CHR ''a''), ''b'']"
      using split_sentence_then_b [of "[]" 3002] by (simp add: split_def SENTENCE_SEP_def)
    with eq have "replicate 3000 (CHR ''a'') @ ''aab.'' = replicate 3002 (CHR ''a'') @ ''b''"
      by simp
    then have "last (replicate 3000 (CHR ''a'') @ ''aab.'') = last (replicate 3002 (CHR ''a'') @ ''b'')"
      by (rule arg_cong)
    then show False by simp
  qed
qed

section \<open>Retry and backoff\<close>





section \<open>Deduplication\<close>

text \<open>
  Claim C4, as amended. An event whose key is in the dedup set is dropped by either
  handler: the set is unchanged and nothing is dispatched. So after the direct-message
  handler has accepted an event, a second delivery of it is dropped; after the mention
  handler has accepted one, a second delivery is dropped as long as the pruning has left
  the key in the set, which it does whenever the set holds at most 10000 keys after the
  insertion. No key is dispatched while it is in the set.
\<close>

theorem duplicate_while_resident:
  "(message_key event \<in> processed_messages \<longrightarrow>
      handle_message_events env processed_messages event = (processed_messages, None)
      \<and> handle_app_mention_events env processed_messages event = (processed_messages, None))
   \<and> (\<forall>processed' d. handle_message_events env processed_messages event = (processed', Some d) \<longrightarrow>
        message_key event \<notin> processed_messages
        \<and> processed' = insert (message_key event) processed_messages
        \<and> handle_message_events env processed' event = (processed', None)
        \<and> handle_app_mention_events env processed' event = (processed', None))
   \<and> (\<forall>processed' d. handle_app_mention_events env processed_messages event = (processed', Some d) \<longrightarrow>
        message_key event \<notin> processed_messages
        \<and> processed' = prune env (insert (message_key event) processed_messages)
        \<and> (message_key event \<in> processed' \<longrightarrow>
             handle_message_events env processed' event = (processed', None)
             \<and> handle_app_mention_events env processed' event = (processed', None))
        \<and> (card (insert (message_key event) processed_messages) \<le> 10000 \<longrightarrow>
             message_key event \<in> processed'))"
  by (auto simp: handle_message_events_def handle_app_mention_events_def prune_def
      split: if_splits)

text \<open>
  The theorem at the mention of the example, delivered while its key is in the set, and
  delivered twice to the direct-message handler.
\<close>

theorem duplicate_while_resident_witness:
  "handle_app_mention_events newest_first {''C1_1700000000.000100_U2''} late_mention =
     ({''C1_1700000000.000100_U2''}, None)
   \<and> handle_message_events (newest_first\<lparr>is_dm_channel := (\<lambda>channel_id. True)\<rparr>)
        (fst (handle_message_events (newest_first\<lparr>is_dm_channel := (\<lambda>channel_id. True)\<rparr>)
               {} late_mention)) late_mention =
     ({''C1_1700000000.000100_U2''}, None)"
proof -
  let ?dm = "newest_first\<lparr>is_dm_channel := (\<lambda>channel_id. True)\<rparr>"
  have key: "message_key late_mention = ''C1_1700000000.000100_U2''"
    by (simp add: message_key_def late_mention_def)
  have first: "handle_message_events ?dm {} late_mention =
      ({''C1_1700000000.000100_U2''}, Some (to_process_message late_mention))"
    by (simp add: handle_message_events_def key) (simp add: late_mention_def newest_first_def)
  from duplicate_while_resident [of late_mention "{''C1_1700000000.000100_U2''}" newest_first] key
  have 1: "handle_app_mention_events newest_first {''C1_1700000000.000100_U2''} late_mention =
     ({''C1_1700000000.000100_U2''}, None)"
    by simp
  from duplicate_while_resident [of late_mention "{}" ?dm] first
  have 2: "handle_message_events ?dm {''C1_1700000000.000100_U2''} late_mention =
     ({''C1_1700000000.000100_U2''}, None)"
    by blast
  from 1 2 first show ?thesis by simp
qed

lemma earlier_keys_distinct: "distinct earlier_keys"
proof -
  have "inj_on (\<lambda>n. ''C1_'' @ replicate n (CHR ''7'') @ ''_U1'') (set [1..<10001])"
  proof (rule inj_onI)
    fix m n :: nat
    assume "''C1_'' @ replicate m (CHR ''7'') @ ''_U1'' = ''C1_'' @ replicate n (CHR ''7'') @ ''_U1''"
    then have "length (replicate m (CHR ''7'')) = length (replicate n (CHR ''7''))"
      by simp
    then show "m = n" by simp
  qed
  then show ?thesis
    unfolding earlier_keys_def by (simp add: distinct_map)
qed

lemma length_earlier_keys: "length earlier_keys = 10000"
  by (simp add: earlier_keys_def)

lemma card_earlier_keys: "card (set earlier_keys) = 10000"
  using earlier_keys_distinct length_earlier_keys by (simp add: distinct_card)

lemma late_key_new: "''C1_1700000000.000100_U2'' \<notin> set earlier_keys"
proof
  assume "''C1_1700000000.000100_U2'' \<in> set earlier_keys"
  then obtain n where "''C1_1700000000.000100_U2'' = ''C1_'' @ replicate n (CHR ''7'') @ ''_U1''"
    by (auto simp: earlier_keys_def)
  then have "last ''C1_1700000000.000100_U2'' = last (''C1_'' @ replicate n (CHR ''7'') @ ''_U1'')"
    by simp
  then show False by simp
qed

lemma late_mention_key: "message_key late_mention = ''C1_1700000000.000100_U2''"
  by (simp add: message_key_def late_mention_def)

lemma late_mention_text:
  "startswith (strip (clean_text newest_first (event_text late_mention))) ''+think'' = False"
  by (simp add: clean_text_def newest_first_def late_mention_def split_def strip_def isspace_def)

lemma late_mention_evicted:
  "prune newest_first (insert ''C1_1700000000.000100_U2'' (set earlier_keys)) =
     set earlier_keys - set (take 999 earlier_keys)"
proof -
  have "card (insert ''C1_1700000000.000100_U2'' (set earlier_keys)) = 10001"
    using late_key_new card_earlier_keys by simp
  then have "prune newest_first (insert ''C1_1700000000.000100_U2'' (set earlier_keys)) =
     insert ''C1_1700000000.000100_U2'' (set earlier_keys)
       - set (take 1000 (''C1_1700000000.000100_U2'' # earlier_keys))"
    by (simp add: prune_def newest_first_def)
  also have "take 1000 (''C1_1700000000.000100_U2'' # earlier_keys) =
      ''C1_1700000000.000100_U2'' # take 999 earlier_keys"
    by (simp add: take_Cons')
  finally show ?thesis using late_key_new by auto
qed

text \<open>
  Claim C4 as stated fails: with 10000 keys in the set, the mention is accepted, the
  pruning that follows discards its key with 999 others, and the same mention delivered
  again is accepted again. The set order of the example lists every key of the set once.
\<close>

theorem redelivery_after_pruning_counterexample:
  "handle_app_mention_events newest_first (set earlier_keys) late_mention =
     (set earlier_keys - set (take 999 earlier_keys), Some (to_process_message late_mention))
   \<and> handle_app_mention_events newest_first
        (set earlier_keys - set (take 999 earlier_keys)) late_mention =
     (insert (message_key late_mention) (set earlier_keys - set (take 999 earlier_keys)),
      Some (to_process_message late_mention))
   \<and> set (list_of_set newest_first (insert (message_key late_mention) (set earlier_keys))) =
       insert (message_key late_mention) (set earlier_keys)
   \<and> distinct (list_of_set newest_first (insert (message_key late_mention) (set earlier_keys)))"
proof (intro conjI)
  have pre: "present (event_channel late_mention)" "present (event_user late_mention)"
    "present (event_ts late_mention)" "agent_available newest_first"
    "event_user late_mention \<noteq> Some (bot_user_id newest_first)"
    "\<not> is_dm_channel newest_first (event_channel late_mention)"
    by (simp_all add: late_mention_def newest_first_def)
  show "handle_app_mention_events newest_first (set earlier_keys) late_mention =
     (set earlier_keys - set (take 999 earlier_keys), Some (to_process_message late_mention))"
    using pre late_key_new
    by (simp add: handle_app_mention_events_def late_mention_key late_mention_text
        late_mention_evicted)
  have absent: "''C1_1700000000.000100_U2'' \<notin> set earlier_keys - set (take 999 earlier_keys)"
    using late_key_new by simp
  have "card (set earlier_keys - set (take 999 earlier_keys)) \<le> card (set earlier_keys)"
    by (rule card_mono) auto
  then have "card (insert ''C1_1700000000.000100_U2''
      (set earlier_keys - set (take 999 earlier_keys))) \<le> 10001"
    using card_earlier_keys absent by simp
  moreover have "card (set earlier_keys - set (take 999 earlier_keys)) =
      card (set earlier_keys) - card (set (take 999 earlier_keys))"
    by (rule card_Diff_subset) (auto dest: in_set_takeD)
  moreover have "card (set (take 999 earlier_keys)) = 999"
    using earlier_keys_distinct length_earlier_keys by (simp add: distinct_card)
  ultimately have small: "\<not> card (insert ''C1_1700000000.000100_U2''
      (set earlier_keys - set (take 999 earlier_keys))) > 10000"
    using card_earlier_keys absent by simp
  show "handle_app_mention_events newest_first
        (set earlier_keys - set (take 999 earlier_keys)) late_mention =
     (insert (message_key late_mention) (set earlier_keys - set (take 999 earlier_keys)),
      Some (to_process_message late_mention))"
    using pre absent small
    by (simp add: handle_app_mention_events_def late_mention_key late_mention_text prune_def)
  show "set (list_of_set newest_first (insert (message_key late_mention) (set earlier_keys))) =
       insert (message_key late_mention) (set earlier_keys)"
    by (simp add: newest_first_def late_mention_key)
  show "distinct (list_of_set newest_first (insert (message_key late_mention) (set earlier_keys)))"
    using late_key_new earlier_keys_distinct by (simp add: newest_first_def)
qed

section \<open>The context budget warning\<close>



end
